theory Spec2Isabelle
  imports
    Complex_Main
    "HOL-Library.AList"
    "HOL-Library.Char_ord"
    "HOL-Library.List_Lexorder"
    "HOL-Library.Product_Lexorder"
begin

section \<open>Python values used by the momentum engine\<close>

text \<open>
  The engine (\<^verbatim>\<open>momentum_engine.py\<close>) works on text lines, on dictionaries and on
  Python floats. Strings are lists of 8-bit characters, compared lexicographically as
  Python compares \<^verbatim>\<open>str\<close> values. A Python dictionary is an association list in
  insertion order: storing under a present key replaces the value in place, storing
  under a new key appends, which is what \<^const>\<open>AList.update\<close> does.
\<close>

datatype py_error =
    FileNotFoundError string
  | IndexError
  | KeyError
  | ZeroDivisionError

subsection \<open>Floats\<close>

text \<open>
  A Python float is a number, one of the two infinities, or NaN. The finite values are
  kept as rationals and their arithmetic is exact: rounding to binary64 and the sign
  of zero are left out. What the engine's control flow depends on is kept: every
  ordering comparison with NaN is false, and so is every equality with NaN.
\<close>

datatype pyfloat = Fin rat | PInf | NInf | NaN

text \<open>\<^verbatim>\<open>a <= b\<close>, \<^verbatim>\<open>a < b\<close> and \<^verbatim>\<open>a == b\<close> on floats.\<close>

fun fle :: "pyfloat \<Rightarrow> pyfloat \<Rightarrow> bool" where
  "fle NaN _ = False"
| "fle _ NaN = False"
| "fle NInf _ = True"
| "fle _ PInf = True"
| "fle (Fin a) (Fin b) = (a \<le> b)"
| "fle (Fin a) NInf = False"
| "fle PInf (Fin b) = False"
| "fle PInf NInf = False"

fun feq :: "pyfloat \<Rightarrow> pyfloat \<Rightarrow> bool" where
  "feq NaN _ = False"
| "feq _ NaN = False"
| "feq a b = (a = b)"

definition flt :: "pyfloat \<Rightarrow> pyfloat \<Rightarrow> bool" where
  "flt a b = (fle a b \<and> \<not> feq a b)"

text \<open>Unary minus, \<^verbatim>\<open>a / b\<close> (which raises on a zero divisor) and \<^verbatim>\<open>a - b\<close>.\<close>

fun fneg :: "pyfloat \<Rightarrow> pyfloat" where
  "fneg (Fin a) = Fin (- a)"
| "fneg PInf = NInf"
| "fneg NInf = PInf"
| "fneg NaN = NaN"

fun fdiv :: "pyfloat \<Rightarrow> pyfloat \<Rightarrow> py_error + pyfloat" where
  "fdiv a (Fin b) =
     (if b = 0 then Inl ZeroDivisionError
      else case a of
             Fin x \<Rightarrow> Inr (Fin (x / b))
           | PInf \<Rightarrow> Inr (if 0 < b then PInf else NInf)
           | NInf \<Rightarrow> Inr (if 0 < b then NInf else PInf)
           | NaN \<Rightarrow> Inr NaN)"
| "fdiv (Fin x) PInf = Inr (Fin 0)"
| "fdiv (Fin x) NInf = Inr (Fin 0)"
| "fdiv _ _ = Inr NaN"

fun fsub :: "pyfloat \<Rightarrow> pyfloat \<Rightarrow> pyfloat" where
  "fsub (Fin a) (Fin b) = Fin (a - b)"
| "fsub NaN _ = NaN"
| "fsub _ NaN = NaN"
| "fsub PInf PInf = NaN"
| "fsub NInf NInf = NaN"
| "fsub PInf _ = PInf"
| "fsub NInf _ = NInf"
| "fsub (Fin a) PInf = NInf"
| "fsub (Fin a) NInf = PInf"

text \<open>A price is strictly positive when \<^verbatim>\<open>price > 0\<close> holds; NaN is not.\<close>

definition strictly_positive :: "pyfloat \<Rightarrow> bool" where
  "strictly_positive p = flt (Fin 0) p"

subsection \<open>Text\<close>

text \<open>
  \<^verbatim>\<open>str.strip()\<close> removes the white space of \<^verbatim>\<open>str.isspace\<close> at both ends,
  \<^verbatim>\<open>str.lower()\<close> maps the capital letters to small ones, \<^verbatim>\<open>line.split(",")\<close>
  cuts at every comma and always returns at least one field.
\<close>

definition is_space :: "char \<Rightarrow> bool" where
  "is_space c =
     (let n = (of_char c :: nat)
      in (9 \<le> n \<and> n \<le> 13) \<or> (28 \<le> n \<and> n \<le> 32) \<or> n = 133 \<or> n = 160)"

definition strip :: "string \<Rightarrow> string" where
  "strip s = rev (dropWhile is_space (rev (dropWhile is_space s)))"

definition lower_char :: "char \<Rightarrow> char" where
  "lower_char c =
     (let n = (of_char c :: nat)
      in if (65 \<le> n \<and> n \<le> 90) \<or> (192 \<le> n \<and> n \<le> 222 \<and> n \<noteq> 215)
         then char_of (n + 32) else c)"

definition lower :: "string \<Rightarrow> string" where
  "lower s = map lower_char s"

fun split_comma :: "string \<Rightarrow> string list" where
  "split_comma [] = [[]]"
| "split_comma (c # cs) =
     (if c = CHR '','' then [] # split_comma cs
      else case split_comma cs of
             [] \<Rightarrow> [[c]]
           | p # ps \<Rightarrow> (c # p) # ps)"

section \<open>Cleaning: \<^verbatim>\<open>clean_and_save_prices\<close>\<close>

text \<open>
  The two files the function touches. \<^verbatim>\<open>raw_file\<close> is the content of the file at
  \<^verbatim>\<open>PRICES_RAW\<close> as the lines that iterating over the open file yields,
  \<^verbatim>\<open>None\<close> when \<^verbatim>\<open>PRICES_RAW.exists()\<close> is false. \<^verbatim>\<open>clean_file\<close> is the file
  at \<^verbatim>\<open>PRICES_CLEAN\<close>: the header record and the data records that
  \<^verbatim>\<open>csv.writer\<close> was given, in the order written.
\<close>

type_synonym price_key = "string \<times> string"
type_synonym price_row = "string \<times> string \<times> pyfloat"

record files =
  raw_file :: "string list option"
  clean_file :: "(string list \<times> price_row list) option"

text \<open>
  The module computes its paths when it is imported:
  \<^verbatim>\<open>BASE = Path(__file__).resolve().parent\<close> and
  \<^verbatim>\<open>PRICES_RAW = BASE / "stock_prices_1.csv"\<close>. The directory is known only where the
  module is installed, so the path is an argument of the function, \<open>PRICES_RAW\<close>, the
  text that \<^verbatim>\<open>f"{PRICES_RAW}"\<close> interpolates.
\<close>

text \<open>
  The audit log. Each constructor is one of the messages of the source with the values
  that its f-string interpolates: the first 80 characters of a malformed line, the
  number of rows read, the number of rows removed, the number of duplicate pairs with
  the number of duplicate rows dropped, the number of rows written.
\<close>

datatype log_entry =
    SkippedMalformed string
  | ReadRows nat
  | Removed nat
  | Resolved nat int
  | Written nat

text \<open>The local variables of the reading loop.\<close>

record clean_state =
  log :: "log_entry list"
  rows_read :: nat
  empty_or_invalid_price :: nat
  duplicate_keys :: "(price_key \<times> nat) list"
  last_seen :: "(price_key \<times> pyfloat) list"

definition clean_init :: clean_state where
  "clean_init =
     \<lparr>log = [], rows_read = 0, empty_or_invalid_price = 0,
      duplicate_keys = [], last_seen = []\<rparr>"

text \<open>
  One turn of the loop over the lines. \<open>float\<close> stands for Python's built-in
  \<^verbatim>\<open>float\<close>: \<^verbatim>\<open>None\<close> is its \<^verbatim>\<open>ValueError\<close>.
\<close>

definition clean_line ::
  "(string \<Rightarrow> pyfloat option) \<Rightarrow> clean_state \<Rightarrow> string \<Rightarrow> clean_state" where
  "clean_line float st raw_line =
     (let line = strip raw_line in
      if line = [] then st
      else
        let parts = split_comma line in
        if length parts < 3 then
          st\<lparr>empty_or_invalid_price := empty_or_invalid_price st + 1,
             log := log st @ [SkippedMalformed (take 80 line)]\<rparr>
        else
          let date_str = strip (parts ! 0);
              ticker = strip (parts ! 1);
              price_str = strip (parts ! 2) in
          if lower date_str = ''date'' \<and> lower ticker = ''ticker'' then st
          else
            let st1 = st\<lparr>rows_read := rows_read st + 1\<rparr> in
            case float price_str of
              None \<Rightarrow> st1\<lparr>empty_or_invalid_price := empty_or_invalid_price st1 + 1\<rparr>
            | Some price \<Rightarrow>
                if fle price (Fin 0) then
                  st1\<lparr>empty_or_invalid_price := empty_or_invalid_price st1 + 1\<rparr>
                else
                  let key = (date_str, ticker);
                      st2 =
                        (if map_of (last_seen st1) key \<noteq> None then
                           st1\<lparr>duplicate_keys :=
                                 AList.update key
                                   ((case map_of (duplicate_keys st1) key of
                                       None \<Rightarrow> 1 | Some c \<Rightarrow> c) + 1)
                                   (duplicate_keys st1)\<rparr>
                         else st1)
                  in st2\<lparr>last_seen := AList.update key price (last_seen st2)\<rparr>)"

definition read_lines :: "(string \<Rightarrow> pyfloat option) \<Rightarrow> string list \<Rightarrow> clean_state" where
  "read_lines float lines = foldl (clean_line float) clean_init lines"

text \<open>
  The writing loop: one record per key, in the order of the sorted keys. The look-up
  \<^verbatim>\<open>last_seen[(date_str, ticker)]\<close> raises \<^verbatim>\<open>KeyError\<close> on a missing key; the
  records written before stay in the file.
\<close>

fun write_rows ::
  "(price_key \<times> pyfloat) list \<Rightarrow> price_key list \<Rightarrow> price_row list
     \<Rightarrow> py_error option \<times> price_row list" where
  "write_rows ls [] acc = (None, acc)"
| "write_rows ls (k # ks) acc =
     (case map_of ls k of
        None \<Rightarrow> (Some KeyError, acc)
      | Some p \<Rightarrow> write_rows ls ks (acc @ [(fst k, snd k, p)]))"

definition clean_header :: "string list" where
  "clean_header = [''date'', ''ticker'', ''close_price'']"

definition clean_and_save_prices ::
  "(string \<Rightarrow> pyfloat option) \<Rightarrow> string \<Rightarrow> files
     \<Rightarrow> (py_error + nat \<times> log_entry list) \<times> files" where
  "clean_and_save_prices float PRICES_RAW fs =
     (case raw_file fs of
        None \<Rightarrow> (Inl (FileNotFoundError (''Input file not found: '' @ PRICES_RAW)), fs)
      | Some lines \<Rightarrow>
          let st = read_lines float lines;
              num_duplicate_pairs = length (duplicate_keys st);
              total_duplicate_occurrences = sum_list (map snd (duplicate_keys st));
              duplicate_rows_dropped =
                int total_duplicate_occurrences - int num_duplicate_pairs;
              w = write_rows (last_seen st) (sort (map fst (last_seen st))) [];
              fs' = fs\<lparr>clean_file := Some (clean_header, snd w)\<rparr>
          in case fst w of
               Some e \<Rightarrow> (Inl e, fs')
             | None \<Rightarrow>
                 let rows_written = length (last_seen st);
                     log1 = log st @ [ReadRows (rows_read st)];
                     log2 = (if empty_or_invalid_price st \<noteq> 0
                             then log1 @ [Removed (empty_or_invalid_price st)] else log1);
                     log3 = (if duplicate_rows_dropped \<noteq> 0
                             then log2 @ [Resolved num_duplicate_pairs duplicate_rows_dropped]
                             else log2)
                 in (Inr (rows_written, log3 @ [Written rows_written]), fs'))"

text \<open>
  An instance of \<open>float\<close> for concrete runs: Python's \<^verbatim>\<open>float\<close> on the literals
  \<^verbatim>\<open>nan\<close>, \<^verbatim>\<open>inf\<close> and \<^verbatim>\<open>infinity\<close> (any case, with an optional sign) and on
  signed decimal numerals without exponent, with \<^verbatim>\<open>None\<close> for the empty string and
  for text that is no number. Numerals with an exponent or with digit separators are
  outside this fragment.
\<close>

definition is_digit :: "char \<Rightarrow> bool" where
  "is_digit c = (CHR ''0'' \<le> c \<and> c \<le> CHR ''9'')"

definition digits_value :: "string \<Rightarrow> nat" where
  "digits_value ds = foldl (\<lambda>n c. 10 * n + (of_char c - 48)) 0 ds"

definition float_plain :: "string \<Rightarrow> pyfloat option" where
  "float_plain s =
     (let (neg, body) =
            (case s of
               [] \<Rightarrow> (False, s)
             | c # cs \<Rightarrow>
                 if c = CHR ''-'' then (True, cs)
                 else if c = CHR ''+'' then (False, cs) else (False, s));
          sign = (if neg then - 1 else 1 :: rat);
          low = lower body;
          ip = takeWhile is_digit body;
          rest = dropWhile is_digit body
      in if low = ''nan'' then Some NaN
         else if low = ''inf'' \<or> low = ''infinity'' then Some (if neg then NInf else PInf)
         else case rest of
                [] \<Rightarrow> if ip = [] then None else Some (Fin (sign * of_nat (digits_value ip)))
              | c # fp \<Rightarrow>
                  if c = CHR ''.'' \<and> list_all is_digit fp \<and> \<not> (ip = [] \<and> fp = [])
                  then Some (Fin (sign * (of_nat (digits_value ip)
                                          + of_nat (digits_value fp) / 10 ^ length fp)))
                  else None)"

section \<open>The trading calendar\<close>

text \<open>
  \<^verbatim>\<open>get_trading_dates_ordered\<close>: the loop keeps the set \<open>seen\<close> and the list \<open>out\<close>;
  a date that is not in \<open>seen\<close> is added to both.
\<close>

fun dates_loop :: "price_row list \<Rightarrow> string set \<Rightarrow> string list \<Rightarrow> string list" where
  "dates_loop [] seen out = out"
| "dates_loop ((d, _, _) # rows) seen out =
     (if d \<notin> seen then dates_loop rows (insert d seen) (out @ [d])
      else dates_loop rows seen out)"

definition get_trading_dates_ordered :: "price_row list \<Rightarrow> string list" where
  "get_trading_dates_ordered rows = dates_loop rows {} []"

text \<open>
  \<^verbatim>\<open>build_date_to_index\<close>: the dictionary comprehension stores the pairs of
  \<^verbatim>\<open>enumerate(dates)\<close> from left to right, so a later position replaces an earlier
  one under the same date. Only look-ups are made in this dictionary, so it is a map.
\<close>

definition build_date_to_index :: "string list \<Rightarrow> (string \<rightharpoonup> int)" where
  "build_date_to_index dates =
     foldl (\<lambda>m (i, d). m(d \<mapsto> int i)) Map.empty (enumerate 0 dates)"

section \<open>Ranking: \<^verbatim>\<open>compute_top5_momentum_for_date\<close>\<close>

text \<open>\<^verbatim>\<open>xs[j]\<close> on a list: a negative index counts from the end.\<close>

definition py_index :: "'a list \<Rightarrow> int \<Rightarrow> py_error + 'a" where
  "py_index xs j =
     (let n = int (length xs); k = (if j < 0 then j + n else j)
      in if 0 \<le> k \<and> k < n then Inr (xs ! nat k) else Inl IndexError)"

text \<open>
  The grouping pass: \<^verbatim>\<open>by_ticker[ticker][d] = price\<close> on a
  \<^verbatim>\<open>defaultdict(dict)\<close>. A ticker that is not yet a key enters with an empty
  dictionary.
\<close>

definition group_row ::
  "(string \<times> (string \<times> pyfloat) list) list \<Rightarrow> price_row
     \<Rightarrow> (string \<times> (string \<times> pyfloat) list) list" where
  "group_row by_ticker row =
     (case row of (d, ticker, price) \<Rightarrow>
        let day_prices = (case map_of by_ticker ticker of None \<Rightarrow> [] | Some m \<Rightarrow> m)
        in AList.update ticker (AList.update d price day_prices) by_ticker)"

definition group_by_ticker :: "price_row list \<Rightarrow> (string \<times> (string \<times> pyfloat) list) list" where
  "group_by_ticker rows = foldl group_row [] rows"

text \<open>The loop over \<^verbatim>\<open>by_ticker.items()\<close> that fills \<^verbatim>\<open>momentums\<close>.\<close>

fun momentum_loop ::
  "string \<Rightarrow> string \<Rightarrow> (string \<times> (string \<times> pyfloat) list) list
     \<Rightarrow> (string \<times> pyfloat) list \<Rightarrow> py_error + (string \<times> pyfloat) list" where
  "momentum_loop target_date date_20_ago [] momentums = Inr momentums"
| "momentum_loop target_date date_20_ago ((ticker, day_prices) # rest) momentums =
     (case map_of day_prices target_date of
        None \<Rightarrow> momentum_loop target_date date_20_ago rest momentums
      | Some p_today \<Rightarrow>
          (case map_of day_prices date_20_ago of
             None \<Rightarrow> momentum_loop target_date date_20_ago rest momentums
           | Some p_20 \<Rightarrow>
               if fle p_20 (Fin 0) then momentum_loop target_date date_20_ago rest momentums
               else
                 (case fdiv p_today p_20 of
                    Inl e \<Rightarrow> Inl e
                  | Inr q \<Rightarrow>
                      momentum_loop target_date date_20_ago rest
                        (momentums @ [(ticker, fsub q (Fin 1))]))))"

text \<open>
  The sort key \<^verbatim>\<open>(-x[1], x[0])\<close> and Python's \<^verbatim>\<open><\<close> on such tuples: the first
  components decide unless they are equal (\<^verbatim>\<open>==\<close>), then the second ones do.
\<close>

definition sort_key :: "string \<times> pyfloat \<Rightarrow> pyfloat \<times> string" where
  "sort_key x = (fneg (snd x), fst x)"

definition key_lt :: "pyfloat \<times> string \<Rightarrow> pyfloat \<times> string \<Rightarrow> bool" where
  "key_lt a b = (if feq (fst a) (fst b) then snd a < snd b else flt (fst a) (fst b))"

text \<open>
  \<^verbatim>\<open>list.sort\<close> is stable and compares keys with \<^verbatim>\<open><\<close> only. It is modelled by
  insertion from left to right, each element going behind every element that it is
  not less than. On keys that \<^verbatim>\<open><\<close> orders totally, every stable sort gives this
  list. On two elements it is also what CPython does whatever the keys are: the pair
  is swapped exactly when the second key is less than the first.
\<close>

fun sort_insert :: "string \<times> pyfloat \<Rightarrow> (string \<times> pyfloat) list \<Rightarrow> (string \<times> pyfloat) list" where
  "sort_insert x [] = [x]"
| "sort_insert x (y # ys) =
     (if key_lt (sort_key x) (sort_key y) then x # y # ys else y # sort_insert x ys)"

definition py_sort :: "(string \<times> pyfloat) list \<Rightarrow> (string \<times> pyfloat) list" where
  "py_sort xs = foldl (\<lambda>acc x. sort_insert x acc) [] xs"

text \<open>
  The result is \<^verbatim>\<open>None\<close> (the date is unknown), or a list: \<^verbatim>\<open>[]\<close> when the history
  is too short, otherwise the first five entries of the sorted list.
\<close>

definition compute_top5_momentum_for_date ::
  "price_row list \<Rightarrow> string \<Rightarrow> string list \<Rightarrow> (string \<rightharpoonup> int) \<Rightarrow> int
     \<Rightarrow> py_error + (string \<times> pyfloat) list option" where
  "compute_top5_momentum_for_date rows target_date dates date_to_index window =
     (case date_to_index target_date of
        None \<Rightarrow> Inr None
      | Some idx \<Rightarrow>
          if idx < window then Inr (Some [])
          else
            (case py_index dates (idx - window) of
               Inl e \<Rightarrow> Inl e
             | Inr date_20_ago \<Rightarrow>
                 (case momentum_loop target_date date_20_ago (group_by_ticker rows) [] of
                    Inl e \<Rightarrow> Inl e
                  | Inr momentums \<Rightarrow> Inr (Some (take 5 (py_sort momentums))))))"

section \<open>Vocabulary of the specification\<close>

text \<open>
  The kinds of line that the reading loop tells apart, by the tests it makes in their
  order: a blank line, a malformed line (fewer than three fields), a header line and
  a data row (three fields or more).
\<close>

definition fields :: "string \<Rightarrow> string list" where
  "fields raw_line = split_comma (strip raw_line)"

definition is_blank :: "string \<Rightarrow> bool" where
  "is_blank raw_line = (strip raw_line = [])"

definition is_malformed :: "string \<Rightarrow> bool" where
  "is_malformed raw_line = (\<not> is_blank raw_line \<and> length (fields raw_line) < 3)"

definition header_like :: "string \<Rightarrow> bool" where
  "header_like raw_line =
     (lower (strip (fields raw_line ! 0)) = ''date'' \<and>
      lower (strip (fields raw_line ! 1)) = ''ticker'')"

definition is_header :: "string \<Rightarrow> bool" where
  "is_header raw_line =
     (\<not> is_blank raw_line \<and> 3 \<le> length (fields raw_line) \<and> header_like raw_line)"

definition is_data_row :: "string \<Rightarrow> bool" where
  "is_data_row raw_line =
     (\<not> is_blank raw_line \<and> 3 \<le> length (fields raw_line) \<and> \<not> header_like raw_line)"

definition row_key :: "string \<Rightarrow> price_key" where
  "row_key raw_line = (strip (fields raw_line ! 0), strip (fields raw_line ! 1))"

definition price_field :: "string \<Rightarrow> string" where
  "price_field raw_line = strip (fields raw_line ! 2)"

text \<open>
  A data row fails on its price when \<^verbatim>\<open>float\<close> raises or the price is \<^verbatim>\<open><= 0\<close>;
  otherwise the loop accepts it.
\<close>

definition price_fails :: "(string \<Rightarrow> pyfloat option) \<Rightarrow> string \<Rightarrow> bool" where
  "price_fails float raw_line =
     (is_data_row raw_line \<and>
      (case float (price_field raw_line) of None \<Rightarrow> True | Some p \<Rightarrow> fle p (Fin 0)))"

definition accepted :: "(string \<Rightarrow> pyfloat option) \<Rightarrow> string \<Rightarrow> bool" where
  "accepted float raw_line =
     (is_data_row raw_line \<and>
      (case float (price_field raw_line) of None \<Rightarrow> False | Some p \<Rightarrow> \<not> fle p (Fin 0)))"

text \<open>The dates of a table in the order in which a walk over it first meets them.\<close>

fun first_seen :: "string list \<Rightarrow> string list" where
  "first_seen [] = []"
| "first_seen (d # ds) = d # filter (\<lambda>x. x \<noteq> d) (first_seen ds)"

text \<open>
  The audit log that the function returns, from the state at the end of the reading
  loop, and the records it writes, from the final dictionary.
\<close>

definition audit_log :: "clean_state \<Rightarrow> log_entry list" where
  "audit_log st =
     log st @ [ReadRows (rows_read st)]
       @ (if empty_or_invalid_price st \<noteq> 0 then [Removed (empty_or_invalid_price st)] else [])
       @ (if int (sum_list (map snd (duplicate_keys st))) - int (length (duplicate_keys st)) \<noteq> 0
          then [Resolved (length (duplicate_keys st))
                  (int (sum_list (map snd (duplicate_keys st))) - int (length (duplicate_keys st)))]
          else [])
       @ [Written (length (last_seen st))]"

definition table_of :: "(price_key \<times> pyfloat) list \<Rightarrow> price_row list" where
  "table_of ls = map (\<lambda>k. (fst k, snd k, the (map_of ls k))) (sort (map fst ls))"

text \<open>A place where the raw file may be, as the text of its path.\<close>

definition example_raw_path :: string where
  "example_raw_path = ''/srv/roll_mom/stock_prices_1.csv''"

text \<open>A small raw file: a header, two data rows, a malformed line and an empty line.\<close>

definition example_lines :: "string list" where
  "example_lines = [''date,ticker,close_price'', ''d1,A,5'', ''garbage'', [], ''d1,B,abc'']"

text \<open>A small table whose dates are not in ascending order.\<close>

definition example_rows :: "price_row list" where
  "example_rows =
     [(''d2'', ''A'', Fin 1), (''d1'', ''A'', Fin 2), (''d2'', ''B'', Fin 3), (''d1'', ''B'', Fin 4)]"

text \<open>
  For a key, the number of rows that the loop accepts under it, and the price of the
  last of them in reading order.
\<close>

definition occurrences :: "(string \<Rightarrow> pyfloat option) \<Rightarrow> string list \<Rightarrow> price_key \<Rightarrow> nat" where
  "occurrences float lines k =
     length (filter (\<lambda>l. accepted float l \<and> row_key l = k) lines)"

definition last_accepted ::
  "(string \<Rightarrow> pyfloat option) \<Rightarrow> string list \<Rightarrow> price_key \<Rightarrow> pyfloat option" where
  "last_accepted float lines k =
     (case rev (filter (\<lambda>l. accepted float l \<and> row_key l = k) lines) of
        [] \<Rightarrow> None
      | l # _ \<Rightarrow> float (price_field l))"

text \<open>
  The price of a ticker on a date in a table: the price of the last row for the pair,
  which is the one that the grouping pass leaves in the dictionary of the ticker.
  \<open>candidate\<close> is the body of the loop over the tickers: the entry that a ticker adds
  to \<^verbatim>\<open>momentums\<close>, if it adds one.
\<close>

definition price_on :: "price_row list \<Rightarrow> string \<Rightarrow> string \<Rightarrow> pyfloat option" where
  "price_on rows ticker d =
     (case rev (filter (\<lambda>r. fst r = d \<and> fst (snd r) = ticker) rows) of
        [] \<Rightarrow> None
      | r # _ \<Rightarrow> Some (snd (snd r)))"

definition day_price ::
  "(string \<times> (string \<times> pyfloat) list) list \<Rightarrow> string \<Rightarrow> string \<Rightarrow> pyfloat option" where
  "day_price by_ticker ticker d =
     (case map_of by_ticker ticker of None \<Rightarrow> None | Some m \<Rightarrow> map_of m d)"

definition candidate ::
  "string \<Rightarrow> string \<Rightarrow> string \<times> (string \<times> pyfloat) list \<Rightarrow> (string \<times> pyfloat) option" where
  "candidate target_date date_20_ago item =
     (case map_of (snd item) target_date of
        None \<Rightarrow> None
      | Some p_today \<Rightarrow>
          (case map_of (snd item) date_20_ago of
             None \<Rightarrow> None
           | Some p_20 \<Rightarrow>
               if fle p_20 (Fin 0) then None
               else (case fdiv p_today p_20 of
                       Inl e \<Rightarrow> None
                     | Inr q \<Rightarrow> Some (fst item, fsub q (Fin 1)))))"

section \<open>Results\<close>

subsection \<open>The reading loop, line by line\<close>

lemma line_cases:
  "is_blank l \<or> is_malformed l \<or> is_header l \<or> price_fails float l \<or> accepted float l"
  by (auto simp: is_malformed_def is_header_def price_fails_def accepted_def is_data_row_def
      split: option.splits)

lemma clean_line_blank: "is_blank l \<Longrightarrow> clean_line float st l = st"
  by (simp add: clean_line_def is_blank_def)

lemma clean_line_malformed:
  "is_malformed l \<Longrightarrow>
   clean_line float st l =
     st\<lparr>empty_or_invalid_price := empty_or_invalid_price st + 1,
        log := log st @ [SkippedMalformed (take 80 (strip l))]\<rparr>"
  by (simp add: clean_line_def is_malformed_def is_blank_def fields_def Let_def)

lemma clean_line_header: "is_header l \<Longrightarrow> clean_line float st l = st"
  by (simp add: clean_line_def is_header_def is_blank_def fields_def header_like_def Let_def)

lemma clean_line_price_fails:
  "price_fails float l \<Longrightarrow>
   clean_line float st l =
     st\<lparr>rows_read := rows_read st + 1,
        empty_or_invalid_price := empty_or_invalid_price st + 1\<rparr>"
  by (auto simp: clean_line_def price_fails_def is_data_row_def is_blank_def fields_def
      header_like_def price_field_def Let_def split: option.splits)

lemma clean_line_accepted:
  "accepted float l \<Longrightarrow> float (price_field l) = Some p \<Longrightarrow>
   clean_line float st l =
     st\<lparr>rows_read := rows_read st + 1,
        duplicate_keys :=
          (if map_of (last_seen st) (row_key l) \<noteq> None
           then AList.update (row_key l)
                  ((case map_of (duplicate_keys st) (row_key l) of None \<Rightarrow> 1 | Some c \<Rightarrow> c) + 1)
                  (duplicate_keys st)
           else duplicate_keys st),
        last_seen := AList.update (row_key l) p (last_seen st)\<rparr>"
  by (auto simp: clean_line_def accepted_def is_data_row_def is_blank_def fields_def
      header_like_def price_field_def row_key_def Let_def split: option.splits)

lemma rows_read_step:
  "rows_read (clean_line float st l) = rows_read st + (if is_data_row l then 1 else 0)"
  using line_cases [of l float]
  by (auto simp: clean_line_blank clean_line_malformed clean_line_header
      clean_line_price_fails clean_line_accepted accepted_def price_fails_def
      is_malformed_def is_header_def is_data_row_def split: option.splits)

lemma rows_read_foldl:
  "rows_read (foldl (clean_line float) st ls) = rows_read st + length (filter is_data_row ls)"
  by (induction ls arbitrary: st) (simp_all add: rows_read_step)

lemma invalid_step:
  "empty_or_invalid_price (clean_line float st l) =
     empty_or_invalid_price st + (if is_malformed l \<or> price_fails float l then 1 else 0)"
  using line_cases [of l float]
  by (auto simp: clean_line_blank clean_line_malformed clean_line_header
      clean_line_price_fails clean_line_accepted accepted_def price_fails_def
      is_malformed_def is_header_def is_data_row_def split: option.splits)

lemma malformed_not_price_fails: "is_malformed l \<Longrightarrow> \<not> price_fails float l"
  by (simp add: is_malformed_def price_fails_def is_data_row_def)

lemma invalid_foldl:
  "empty_or_invalid_price (foldl (clean_line float) st ls) =
     empty_or_invalid_price st + length (filter is_malformed ls)
       + length (filter (price_fails float) ls)"
  by (induction ls arbitrary: st) (auto simp: invalid_step malformed_not_price_fails)

lemma log_step:
  "log (clean_line float st l) =
     log st @ (if is_malformed l then [SkippedMalformed (take 80 (strip l))] else [])"
  using line_cases [of l float]
  by (auto simp: clean_line_blank clean_line_malformed clean_line_header
      clean_line_price_fails clean_line_accepted accepted_def price_fails_def
      is_malformed_def is_header_def is_data_row_def split: option.splits)

lemma log_foldl:
  "log (foldl (clean_line float) st ls) =
     log st @ map (\<lambda>l. SkippedMalformed (take 80 (strip l))) (filter is_malformed ls)"
  by (induction ls arbitrary: st) (simp_all add: log_step)

lemma write_rows_ok:
  "set ks \<subseteq> fst ` set ls \<Longrightarrow>
   write_rows ls ks acc = (None, acc @ map (\<lambda>k. (fst k, snd k, the (map_of ls k))) ks)"
proof (induction ks arbitrary: acc)
  case Nil
  then show ?case by simp
next
  case (Cons k ks)
  then obtain p where "map_of ls k = Some p"
    by (cases "map_of ls k") (auto simp: map_of_eq_None_iff)
  with Cons show ?case by simp
qed

lemma clean_result:
  "raw_file fs = Some lines \<Longrightarrow>
   clean_and_save_prices float PRICES_RAW fs =
     (Inr (length (last_seen (read_lines float lines)), audit_log (read_lines float lines)),
      fs\<lparr>clean_file := Some (clean_header, table_of (last_seen (read_lines float lines)))\<rparr>)"
  by (simp add: clean_and_save_prices_def Let_def write_rows_ok audit_log_def table_of_def)

lemma rows_read_read_lines:
  "rows_read (read_lines float lines) = length (filter is_data_row lines)"
  by (simp add: read_lines_def rows_read_foldl clean_init_def)

lemma log_read_lines:
  "log (read_lines float lines) =
      map (\<lambda>l. SkippedMalformed (take 80 (strip l))) (filter is_malformed lines)"
  by (simp add: read_lines_def log_foldl clean_init_def)

lemma invalid_read_lines:
  "empty_or_invalid_price (read_lines float lines) =
     length (filter is_malformed lines) + length (filter (price_fails float) lines)"
  by (simp add: read_lines_def invalid_foldl clean_init_def)

lemma ReadRows_in_audit_log:
  "ReadRows m \<in> set (audit_log st) \<longleftrightarrow> (m = rows_read st \<or> ReadRows m \<in> set (log st))"
  by (simp add: audit_log_def)

lemma ReadRows_not_in_log: "ReadRows m \<notin> set (log (read_lines float lines))"
  by (auto simp: log_read_lines)

lemma example_count: "length (filter is_data_row example_lines) = 2"
  by code_simp


subsection \<open>The source file is missing\<close>

text \<open>
  Claim C8. When the raw input file does not exist, \<^verbatim>\<open>clean_and_save_prices\<close> raises
  \<^verbatim>\<open>FileNotFoundError\<close>, whatever the path \<open>PRICES_RAW\<close> of the raw file is; the message
  is \<^verbatim>\<open>Input file not found: \<close> followed by the whole of that path, the place where
  the file was looked for; and the files are as they were before the call: the clean
  file is not created when there was none, and is not written when there was one.
\<close>

theorem source_not_found:
  "raw_file fs = None \<Longrightarrow>
   clean_and_save_prices float PRICES_RAW fs =
     (Inl (FileNotFoundError (''Input file not found: '' @ PRICES_RAW)), fs)"
  by (simp add: clean_and_save_prices_def)

theorem source_not_found_witness:
  "raw_file \<lparr>raw_file = None, clean_file = None\<rparr> = None
   \<and> clean_and_save_prices float_plain ''/srv/roll_mom/stock_prices_1.csv''
        \<lparr>raw_file = None, clean_file = None\<rparr> =
       (Inl (FileNotFoundError ''Input file not found: /srv/roll_mom/stock_prices_1.csv''),
        \<lparr>raw_file = None, clean_file = None\<rparr>)
   \<and> raw_file \<lparr>raw_file = None, clean_file = Some (clean_header, example_rows)\<rparr> = None
   \<and> clean_and_save_prices float_plain ''/tmp/data/raw.csv''
        \<lparr>raw_file = None, clean_file = Some (clean_header, example_rows)\<rparr> =
       (Inl (FileNotFoundError ''Input file not found: /tmp/data/raw.csv''),
        \<lparr>raw_file = None, clean_file = Some (clean_header, example_rows)\<rparr>)"
  using
    source_not_found
      [where fs = "\<lparr>raw_file = None, clean_file = None\<rparr>" and float = float_plain
         and PRICES_RAW = "''/srv/roll_mom/stock_prices_1.csv''"]
    source_not_found
      [where fs = "\<lparr>raw_file = None, clean_file = Some (clean_header, example_rows)\<rparr>"
         and float = float_plain and PRICES_RAW = "''/tmp/data/raw.csv''"]
  by simp

subsection \<open>Unknown date and short history\<close>

text \<open>
  Claim C3. \<^verbatim>\<open>compute_top5_momentum_for_date\<close> returns \<^verbatim>\<open>None\<close> exactly when the
  target date is not a key of the date-to-index map; it returns the empty list when
  the index of the target date is less than the window; and the two results differ.
\<close>

theorem rank_sentinels:
  "(compute_top5_momentum_for_date rows target_date dates date_to_index window = Inr None)
     = (date_to_index target_date = None)
   \<and> (\<forall>idx. date_to_index target_date = Some idx \<and> idx < window \<longrightarrow>
        compute_top5_momentum_for_date rows target_date dates date_to_index window
          = Inr (Some []))
   \<and> (Inr None :: py_error + (string \<times> pyfloat) list option) \<noteq> Inr (Some [])"
  by (auto simp: compute_top5_momentum_for_date_def split: option.splits sum.splits)

theorem rank_sentinels_witness:
  "build_date_to_index [''d0'', ''d1''] ''d0'' = Some 0 \<and> (0::int) < 1
   \<and> compute_top5_momentum_for_date [(''d0'', ''A'', Fin 1), (''d1'', ''A'', Fin 2)] ''d0''
        [''d0'', ''d1''] (build_date_to_index [''d0'', ''d1'']) 1 = Inr (Some [])
   \<and> build_date_to_index [''d0'', ''d1''] ''d9'' = None
   \<and> compute_top5_momentum_for_date [(''d0'', ''A'', Fin 1), (''d1'', ''A'', Fin 2)] ''d9''
        [''d0'', ''d1''] (build_date_to_index [''d0'', ''d1'']) 1 = Inr None"
proof -
  have a: "build_date_to_index [''d0'', ''d1''] ''d0'' = Some 0"
    by (simp add: build_date_to_index_def)
  have b: "build_date_to_index [''d0'', ''d1''] ''d9'' = None"
    by (simp add: build_date_to_index_def)
  from rank_sentinels [of "[(''d0'', ''A'', Fin 1), (''d1'', ''A'', Fin 2)]" "''d0''"
      "[''d0'', ''d1'']" "build_date_to_index [''d0'', ''d1'']" 1] a
  have c: "compute_top5_momentum_for_date [(''d0'', ''A'', Fin 1), (''d1'', ''A'', Fin 2)] ''d0''
        [''d0'', ''d1''] (build_date_to_index [''d0'', ''d1'']) 1 = Inr (Some [])"
    by simp
  from rank_sentinels [of "[(''d0'', ''A'', Fin 1), (''d1'', ''A'', Fin 2)]" "''d9''"
      "[''d0'', ''d1'']" "build_date_to_index [''d0'', ''d1'']" 1] b
  have d: "compute_top5_momentum_for_date [(''d0'', ''A'', Fin 1), (''d1'', ''A'', Fin 2)] ''d9''
        [''d0'', ''d1''] (build_date_to_index [''d0'', ''d1'']) 1 = Inr None"
    by simp
  from a b c d show ?thesis by simp
qed

subsection \<open>Which lines count as read\<close>

text \<open>
  Claim C6 says that every line that is neither blank nor a header counts as one row
  read, malformed lines included. The loop leaves a malformed line before it
  increments \<^verbatim>\<open>rows_read\<close>: the file with the single line \<^verbatim>\<open>garbage\<close> reports
  zero rows read.
\<close>

theorem malformed_line_not_read:
  "\<not> is_blank ''garbage'' \<and> \<not> is_header ''garbage'' \<and>
   clean_and_save_prices float_plain example_raw_path
     \<lparr>raw_file = Some [''garbage''], clean_file = None\<rparr> =
     (Inr (0, [SkippedMalformed ''garbage'', ReadRows 0, Removed 1, Written 0]),
      \<lparr>raw_file = Some [''garbage''], clean_file = Some (clean_header, [])\<rparr>)"
  by code_simp

text \<open>
  Claim C6 as amended. The number of rows read is the number of data rows: the lines
  that are not blank, have three fields or more and are not a header, whatever their
  price field holds. It is the number in the one \<^verbatim>\<open>Read\<close> entry of the audit log.
\<close>

theorem read_rows_count:
  "raw_file fs = Some lines \<Longrightarrow>
   rows_read (read_lines float lines) = length (filter is_data_row lines) \<and>
   (\<exists>n lg. fst (clean_and_save_prices float PRICES_RAW fs) = Inr (n, lg) \<and>
      ReadRows (length (filter is_data_row lines)) \<in> set lg \<and>
      (\<forall>m. ReadRows m \<in> set lg \<longrightarrow> m = length (filter is_data_row lines)))"
proof -
  assume raw: "raw_file fs = Some lines"
  let ?st = "read_lines float lines"
  have res: "fst (clean_and_save_prices float PRICES_RAW fs) = Inr (length (last_seen ?st), audit_log ?st)"
    by (simp add: clean_result [OF raw])
  have a: "ReadRows (length (filter is_data_row lines)) \<in> set (audit_log ?st)"
    by (simp add: ReadRows_in_audit_log rows_read_read_lines)
  have b: "\<forall>m. ReadRows m \<in> set (audit_log ?st) \<longrightarrow> m = length (filter is_data_row lines)"
    by (simp add: ReadRows_in_audit_log ReadRows_not_in_log rows_read_read_lines)
  from res a b have "\<exists>n lg. fst (clean_and_save_prices float PRICES_RAW fs) = Inr (n, lg) \<and>
      ReadRows (length (filter is_data_row lines)) \<in> set lg \<and>
      (\<forall>m. ReadRows m \<in> set lg \<longrightarrow> m = length (filter is_data_row lines))"
    by blast
  then show ?thesis
    using rows_read_read_lines [of float lines] by blast
qed

theorem read_rows_count_witness:
  "raw_file \<lparr>raw_file = Some example_lines, clean_file = None\<rparr> = Some example_lines
   \<and> length (filter is_data_row example_lines) = 2
   \<and> rows_read (read_lines float_plain example_lines) = 2"
proof -
  have r: "raw_file \<lparr>raw_file = Some example_lines, clean_file = None\<rparr> = Some example_lines"
    by simp
  from read_rows_count [OF r, of float_plain]
  have "rows_read (read_lines float_plain example_lines) = length (filter is_data_row example_lines)"
    by blast
  with r example_count show ?thesis by simp
qed

subsection \<open>Header lines\<close>

text \<open>
  Claim C7 says that a line whose first two fields are the header names is skipped
  silently however many fields it has. The test on the number of fields comes first
  in the loop: the line \<^verbatim>\<open>date,ticker\<close> has two fields, so it is counted as a removed
  row and gets a \<^verbatim>\<open>Skipped malformed line\<close> entry.
\<close>

theorem short_header_is_malformed:
  "header_like ''date,ticker'' \<and>
   clean_and_save_prices float_plain example_raw_path
     \<lparr>raw_file = Some [''date,ticker''], clean_file = None\<rparr> =
     (Inr (0, [SkippedMalformed ''date,ticker'', ReadRows 0, Removed 1, Written 0]),
      \<lparr>raw_file = Some [''date,ticker''], clean_file = Some (clean_header, [])\<rparr>)"
  by code_simp

text \<open>
  Claim C7 as amended. A line with three fields or more whose first two fields, trimmed
  and in lower case, are \<^verbatim>\<open>date\<close> and \<^verbatim>\<open>ticker\<close> leaves the state of the loop as it
  was: no counter changes and the log gets no entry. A line with these two fields and
  fewer than three fields is handled as every malformed line is: it adds one to
  \<^verbatim>\<open>empty_or_invalid_price\<close> and appends its \<^verbatim>\<open>Skipped malformed line\<close> entry.
\<close>

theorem header_skipped:
  "(is_header raw_line \<longrightarrow> clean_line float st raw_line = st) \<and>
   (header_like raw_line \<and> is_malformed raw_line \<longrightarrow>
      clean_line float st raw_line =
        st\<lparr>empty_or_invalid_price := empty_or_invalid_price st + 1,
           log := log st @ [SkippedMalformed (take 80 (strip raw_line))]\<rparr>)"
  by (simp add: clean_line_header clean_line_malformed)

theorem header_skipped_witness:
  "is_header '' Date, TICKER ,Close_Price,extra''
   \<and> clean_line float_plain clean_init '' Date, TICKER ,Close_Price,extra'' = clean_init
   \<and> header_like ''date,ticker'' \<and> is_malformed ''date,ticker''
   \<and> clean_line float_plain clean_init ''date,ticker'' =
       clean_init\<lparr>empty_or_invalid_price := empty_or_invalid_price clean_init + 1,
          log := log clean_init @ [SkippedMalformed (take 80 (strip ''date,ticker''))]\<rparr>
   \<and> empty_or_invalid_price (clean_line float_plain clean_init ''date,ticker'') = 1
   \<and> log (clean_line float_plain clean_init ''date,ticker'') = [SkippedMalformed ''date,ticker'']"
proof -
  have h: "is_header '' Date, TICKER ,Close_Price,extra''"
    by code_simp
  have l: "header_like ''date,ticker''"
    by code_simp
  have m: "is_malformed ''date,ticker''"
    by code_simp
  have s: "take 80 (strip ''date,ticker'') = ''date,ticker''"
    by code_simp
  note a = header_skipped [of "'' Date, TICKER ,Close_Price,extra''" float_plain clean_init]
  note b = header_skipped [of "''date,ticker''" float_plain clean_init]
  from a h
  have a1: "clean_line float_plain clean_init '' Date, TICKER ,Close_Price,extra'' = clean_init"
    by blast
  from b l m
  have b1: "clean_line float_plain clean_init ''date,ticker'' =
       clean_init\<lparr>empty_or_invalid_price := empty_or_invalid_price clean_init + 1,
          log := log clean_init @ [SkippedMalformed (take 80 (strip ''date,ticker''))]\<rparr>"
    by blast
  from b1 s
  have b2: "empty_or_invalid_price (clean_line float_plain clean_init ''date,ticker'') = 1"
    by (simp add: clean_init_def)
  from b1 s
  have b3: "log (clean_line float_plain clean_init ''date,ticker'') =
              [SkippedMalformed ''date,ticker'']"
    by (simp add: clean_init_def)
  from h l m a1 b1 b2 b3 show ?thesis by blast
qed

subsection \<open>Malformed lines and price failures share a counter\<close>

lemma Removed_in_audit_log:
  "Removed m \<in> set (audit_log st) \<longleftrightarrow>
     (Removed m \<in> set (log st) \<or> (m = empty_or_invalid_price st \<and> m \<noteq> 0))"
  by (simp add: audit_log_def) blast

lemma Removed_not_in_log: "Removed m \<notin> set (log (read_lines float lines))"
  by (auto simp: log_read_lines)

text \<open>
  Claim C10. A malformed line adds one to \<^verbatim>\<open>empty_or_invalid_price\<close> and appends its
  own \<^verbatim>\<open>Skipped malformed line\<close> entry at once; a data row whose price is missing,
  not a number or not positive adds one to the same counter; and the number of the
  \<^verbatim>\<open>Removed\<close> entry of the audit log is the number of malformed lines plus the number
  of price failures, the entry being there exactly when that sum is not zero.
\<close>

theorem malformed_counted_with_price_failures:
  "(is_malformed raw_line \<longrightarrow>
      clean_line float st raw_line =
        st\<lparr>empty_or_invalid_price := empty_or_invalid_price st + 1,
           log := log st @ [SkippedMalformed (take 80 (strip raw_line))]\<rparr>)
   \<and> (price_fails float raw_line \<longrightarrow>
      clean_line float st raw_line =
        st\<lparr>rows_read := rows_read st + 1,
           empty_or_invalid_price := empty_or_invalid_price st + 1\<rparr>)
   \<and> (raw_file fs = Some lines \<longrightarrow>
      (\<exists>n lg. fst (clean_and_save_prices float PRICES_RAW fs) = Inr (n, lg) \<and>
         (\<forall>m. Removed m \<in> set lg \<longleftrightarrow>
            m = length (filter is_malformed lines) + length (filter (price_fails float) lines)
            \<and> m \<noteq> 0)))"
proof (intro conjI impI)
  assume "is_malformed raw_line"
  then show "clean_line float st raw_line =
        st\<lparr>empty_or_invalid_price := empty_or_invalid_price st + 1,
           log := log st @ [SkippedMalformed (take 80 (strip raw_line))]\<rparr>"
    by (rule clean_line_malformed)
next
  assume "price_fails float raw_line"
  then show "clean_line float st raw_line =
        st\<lparr>rows_read := rows_read st + 1,
           empty_or_invalid_price := empty_or_invalid_price st + 1\<rparr>"
    by (rule clean_line_price_fails)
next
  assume raw: "raw_file fs = Some lines"
  let ?st = "read_lines float lines"
  have res: "fst (clean_and_save_prices float PRICES_RAW fs) = Inr (length (last_seen ?st), audit_log ?st)"
    by (simp add: clean_result [OF raw])
  have "\<forall>m. Removed m \<in> set (audit_log ?st) \<longleftrightarrow>
            m = length (filter is_malformed lines) + length (filter (price_fails float) lines)
            \<and> m \<noteq> 0"
    by (simp add: Removed_in_audit_log Removed_not_in_log invalid_read_lines)
  with res show "\<exists>n lg. fst (clean_and_save_prices float PRICES_RAW fs) = Inr (n, lg) \<and>
         (\<forall>m. Removed m \<in> set lg \<longleftrightarrow>
            m = length (filter is_malformed lines) + length (filter (price_fails float) lines)
            \<and> m \<noteq> 0)"
    by blast
qed

theorem malformed_counted_with_price_failures_witness:
  "is_malformed ''garbage''
   \<and> clean_line float_plain clean_init ''garbage'' =
       clean_init\<lparr>empty_or_invalid_price := empty_or_invalid_price clean_init + 1,
          log := log clean_init @ [SkippedMalformed (take 80 (strip ''garbage''))]\<rparr>
   \<and> price_fails float_plain ''d1,B,abc''
   \<and> clean_line float_plain clean_init ''d1,B,abc'' =
       clean_init\<lparr>rows_read := rows_read clean_init + 1,
          empty_or_invalid_price := empty_or_invalid_price clean_init + 1\<rparr>
   \<and> raw_file \<lparr>raw_file = Some example_lines, clean_file = None\<rparr> = Some example_lines
   \<and> (\<exists>n lg. fst (clean_and_save_prices float_plain example_raw_path
                    \<lparr>raw_file = Some example_lines, clean_file = None\<rparr>) = Inr (n, lg)
         \<and> Removed 2 \<in> set lg)"
proof -
  have m: "is_malformed ''garbage''"
    by code_simp
  have p: "price_fails float_plain ''d1,B,abc''"
    by code_simp
  have r: "raw_file \<lparr>raw_file = Some example_lines, clean_file = None\<rparr> = Some example_lines"
    by simp
  have c: "length (filter is_malformed example_lines)
             + length (filter (price_fails float_plain) example_lines) = 2"
    by code_simp
  note t1 = malformed_counted_with_price_failures
    [of "''garbage''" float_plain clean_init
        "\<lparr>raw_file = Some example_lines, clean_file = None\<rparr>" example_lines]
  note t2 = malformed_counted_with_price_failures
    [of "''d1,B,abc''" float_plain clean_init
        "\<lparr>raw_file = Some example_lines, clean_file = None\<rparr>" example_lines]
  from t1 m have a1: "clean_line float_plain clean_init ''garbage'' =
       clean_init\<lparr>empty_or_invalid_price := empty_or_invalid_price clean_init + 1,
          log := log clean_init @ [SkippedMalformed (take 80 (strip ''garbage''))]\<rparr>"
    by blast
  from t2 p have a2: "clean_line float_plain clean_init ''d1,B,abc'' =
       clean_init\<lparr>rows_read := rows_read clean_init + 1,
          empty_or_invalid_price := empty_or_invalid_price clean_init + 1\<rparr>"
    by blast
  from t1 r obtain n lg where
    "fst (clean_and_save_prices float_plain example_raw_path
            \<lparr>raw_file = Some example_lines, clean_file = None\<rparr>) = Inr (n, lg)"
    and "\<forall>m. Removed m \<in> set lg \<longleftrightarrow>
            m = length (filter is_malformed example_lines)
                + length (filter (price_fails float_plain) example_lines) \<and> m \<noteq> 0"
    by blast
  with c have a3: "\<exists>n lg. fst (clean_and_save_prices float_plain example_raw_path
                    \<lparr>raw_file = Some example_lines, clean_file = None\<rparr>) = Inr (n, lg)
         \<and> Removed 2 \<in> set lg"
    by simp
  from m p r a1 a2 a3 show ?thesis by blast
qed

subsection \<open>The calendar\<close>

lemma set_first_seen: "set (first_seen ds) = set ds"
  by (induction ds) auto

lemma distinct_first_seen: "distinct (first_seen ds)"
  by (induction ds) (auto simp: set_first_seen)

lemma dates_loop_first_seen:
  "dates_loop rows seen out =
     out @ filter (\<lambda>d. d \<notin> seen) (first_seen (map fst rows))"
proof (induction rows arbitrary: seen out)
  case Nil
  then show ?case by simp
next
  case (Cons row rows)
  obtain d t p where row: "row = (d, t, p)" by (cases row)
  show ?case
  proof (cases "d \<in> seen")
    case True
    have "filter (\<lambda>x. x \<notin> seen) (filter (\<lambda>x. x \<noteq> d) (first_seen (map fst rows)))
            = filter (\<lambda>x. x \<notin> seen) (first_seen (map fst rows))"
      using True by (auto intro: filter_cong)
    with True row Cons.IH [of seen out] show ?thesis by simp
  next
    case False
    have "filter (\<lambda>x. x \<notin> seen) (filter (\<lambda>x. x \<noteq> d) (first_seen (map fst rows)))
            = filter (\<lambda>x. x \<notin> insert d seen) (first_seen (map fst rows))"
      by (auto intro: filter_cong)
    with False row Cons.IH [of "insert d seen" "out @ [d]"] show ?thesis by simp
  qed
qed

lemma get_trading_dates_first_seen:
  "get_trading_dates_ordered rows = first_seen (map fst rows)"
  by (simp add: get_trading_dates_ordered_def dates_loop_first_seen)

lemma index_fold_notin:
  "d \<notin> set ds \<Longrightarrow>
   foldl (\<lambda>m (i, d). m(d \<mapsto> int i)) m0 (enumerate n ds) d = m0 d"
  by (induction ds arbitrary: m0 n) auto

lemma index_fold_nth:
  "distinct ds \<Longrightarrow> i < length ds \<Longrightarrow>
   foldl (\<lambda>m (i, d). m(d \<mapsto> int i)) m0 (enumerate n ds) (ds ! i) = Some (int (n + i))"
proof (induction ds arbitrary: m0 n i)
  case Nil
  then show ?case by simp
next
  case (Cons a ds)
  show ?case
  proof (cases i)
    case 0
    with Cons.prems index_fold_notin [of a ds "m0(a \<mapsto> int n)" "Suc n"]
    show ?thesis by (simp del: fun_upd_apply) simp
  next
    case (Suc j)
    with Cons.prems Cons.IH [of j "m0(a \<mapsto> int n)" "Suc n"] show ?thesis by simp
  qed
qed

lemma index_fold_dom:
  "dom (foldl (\<lambda>m (i, d). m(d \<mapsto> int i)) m0 (enumerate n ds)) = dom m0 \<union> set ds"
  by (induction ds arbitrary: m0 n) auto

text \<open>
  Claim C9. The calendar built by \<^verbatim>\<open>get_trading_dates_ordered\<close> and
  \<^verbatim>\<open>build_date_to_index\<close> holds the dates of the table in the order in which one walk
  over the table first meets them, each date once, and positions and dates correspond:
  the index of the date at position \<open>i\<close> is \<open>i\<close>, every listed date has an index
  and stands at that position, and no other date has an index.
\<close>

theorem calendar_bijection:
  "dates = get_trading_dates_ordered rows \<Longrightarrow>
   date_to_index = build_date_to_index dates \<Longrightarrow>
   dates = first_seen (map fst rows)
   \<and> distinct dates
   \<and> set dates = fst ` set rows
   \<and> (\<forall>i < length dates. date_to_index (dates ! i) = Some (int i))
   \<and> (\<forall>d \<in> set dates. \<exists>i < length dates. date_to_index d = Some (int i) \<and> dates ! i = d)
   \<and> dom date_to_index = set dates"
proof -
  assume d: "dates = get_trading_dates_ordered rows"
    and m: "date_to_index = build_date_to_index dates"
  have fs: "dates = first_seen (map fst rows)"
    by (simp add: d get_trading_dates_first_seen)
  have dist: "distinct dates"
    by (simp add: fs distinct_first_seen)
  have st: "set dates = fst ` set rows"
    by (simp add: fs set_first_seen)
  have fwd: "\<forall>i < length dates. date_to_index (dates ! i) = Some (int i)"
    using index_fold_nth [OF dist, of _ Map.empty 0]
    by (simp add: m build_date_to_index_def)
  have bwd: "\<forall>d \<in> set dates. \<exists>i < length dates. date_to_index d = Some (int i) \<and> dates ! i = d"
  proof
    fix x assume "x \<in> set dates"
    then obtain i where "i < length dates" "dates ! i = x"
      by (auto simp: in_set_conv_nth)
    with fwd show "\<exists>i < length dates. date_to_index x = Some (int i) \<and> dates ! i = x"
      by blast
  qed
  have dm: "dom date_to_index = set dates"
    by (simp add: m build_date_to_index_def index_fold_dom)
  from fs dist st fwd bwd dm show ?thesis by blast
qed

theorem calendar_bijection_witness:
  "get_trading_dates_ordered example_rows = [''d2'', ''d1'']
   \<and> (1::nat) < length [''d2'', ''d1'']
   \<and> build_date_to_index [''d2'', ''d1''] ([''d2'', ''d1''] ! 1) = Some 1
   \<and> ''d1'' \<in> set [''d2'', ''d1'']
   \<and> (\<exists>i < length [''d2'', ''d1''].
         build_date_to_index [''d2'', ''d1''] ''d1'' = Some (int i) \<and> [''d2'', ''d1''] ! i = ''d1'')"
proof -
  have g: "[''d2'', ''d1''] = get_trading_dates_ordered example_rows"
    by code_simp
  note t = calendar_bijection [OF g refl]
  from t have a: "build_date_to_index [''d2'', ''d1''] ([''d2'', ''d1''] ! 1) = Some 1"
    by (metis length_Cons list.size(3) lessI of_nat_1 One_nat_def)
  from t have b: "\<exists>i < length [''d2'', ''d1''].
         build_date_to_index [''d2'', ''d1''] ''d1'' = Some (int i) \<and> [''d2'', ''d1''] ! i = ''d1''"
    by (metis list.set_intros(1) list.set_intros(2))
  from g [symmetric] a b show ?thesis by simp
qed

subsection \<open>Prices that are not numbers\<close>

text \<open>
  The loop drops a row when \<^verbatim>\<open>price <= 0\<close>. For the float NaN this comparison is
  false, as every comparison with NaN is, so a price field that reads \<^verbatim>\<open>nan\<close> passes
  the test although it is not a positive price. The ranking makes the same test on the
  reference price. The four results below run the code on such inputs.
\<close>

text \<open>
  Claim C1 says that every price kept in the canonical table is strictly positive,
  whatever the raw input. On the raw file with the single line
  \<^verbatim>\<open>2023-01-03,AAA,nan\<close> the function writes one record whose price is NaN, which is
  not strictly positive.
\<close>

theorem nan_price_kept:
  "clean_and_save_prices float_plain example_raw_path
     \<lparr>raw_file = Some [''2023-01-03,AAA,nan''], clean_file = None\<rparr> =
     (Inr (1, [ReadRows 1, Written 1]),
      \<lparr>raw_file = Some [''2023-01-03,AAA,nan''],
         clean_file = Some (clean_header, [(''2023-01-03'', ''AAA'', NaN)])\<rparr>)
   \<and> \<not> strictly_positive NaN"
  by code_simp

text \<open>
  Claim C2 says that for a key whose price is a positive number in two rows or more the
  price of the last such row is kept, and that the rows dropped as duplicates are the
  other occurrences. With the prices \<^verbatim>\<open>1\<close>, \<^verbatim>\<open>2\<close> and \<^verbatim>\<open>nan\<close> for one key, in
  this order, the function keeps NaN instead of 2 and reports two duplicate rows dropped
  instead of one.
\<close>

theorem nan_row_overrides_positive_rows:
  "clean_and_save_prices float_plain example_raw_path
     \<lparr>raw_file = Some [''d1,A,1'', ''d1,A,2'', ''d1,A,nan''], clean_file = None\<rparr> =
     (Inr (1, [ReadRows 3, Resolved 1 2, Written 1]),
      \<lparr>raw_file = Some [''d1,A,1'', ''d1,A,2'', ''d1,A,nan''],
         clean_file = Some (clean_header, [(''d1'', ''A'', NaN)])\<rparr>)
   \<and> float_plain ''1'' = Some (Fin 1) \<and> strictly_positive (Fin 1)
   \<and> float_plain ''2'' = Some (Fin 2) \<and> strictly_positive (Fin 2)
   \<and> float_plain ''nan'' = Some NaN \<and> \<not> strictly_positive NaN"
  by code_simp

text \<open>
  Claim C4 says that a ticker is ranked only if its price on the reference date is
  strictly positive. A ticker whose reference price is NaN is ranked, with the momentum
  NaN.
\<close>

theorem nan_reference_price_ranked:
  "compute_top5_momentum_for_date [(''d0'', ''A'', NaN), (''d1'', ''A'', Fin 1)] ''d1''
     [''d0'', ''d1''] (build_date_to_index [''d0'', ''d1'']) 1
     = Inr (Some [(''A'', NaN)])
   \<and> \<not> strictly_positive NaN"
  by code_simp

text \<open>
  Claim C5 says that the ranking is sorted by momentum and does not depend on the order
  of the rows of the table. With a momentum that is NaN the sort leaves the candidates
  in the order in which the grouping pass met their tickers: the same four rows, with
  distinct keys, give two different rankings in two orders.
\<close>

theorem nan_momentum_order_dependent:
  "compute_top5_momentum_for_date
     [(''d0'', ''A'', NaN), (''d0'', ''B'', Fin 1), (''d1'', ''A'', Fin 1), (''d1'', ''B'', Fin 2)]
     ''d1'' [''d0'', ''d1''] (build_date_to_index [''d0'', ''d1'']) 1
     = Inr (Some [(''A'', NaN), (''B'', Fin 1)])
   \<and> compute_top5_momentum_for_date
     [(''d0'', ''B'', Fin 1), (''d0'', ''A'', NaN), (''d1'', ''B'', Fin 2), (''d1'', ''A'', Fin 1)]
     ''d1'' [''d0'', ''d1''] (build_date_to_index [''d0'', ''d1'']) 1
     = Inr (Some [(''B'', Fin 1), (''A'', NaN)])"
  by code_simp

subsection \<open>What the cleaning guarantees on every raw input\<close>

text \<open>
  The dictionary \<^verbatim>\<open>last_seen\<close> holds, for every key, the price of the last row that
  the loop accepted under this key, and an accepted price is never \<^verbatim>\<open><= 0\<close>.
\<close>

lemma read_lines_snoc:
  "read_lines float (ls @ [l]) = clean_line float (read_lines float ls) l"
  by (simp add: read_lines_def)

lemma accepted_price:
  "accepted float l \<Longrightarrow> \<exists>p. float (price_field l) = Some p \<and> \<not> fle p (Fin 0)"
  by (auto simp: accepted_def split: option.splits)

lemma not_accepted_cases:
  "\<not> accepted float l \<Longrightarrow> is_blank l \<or> is_malformed l \<or> is_header l \<or> price_fails float l"
  using line_cases [of l float] by blast

lemma last_seen_not_accepted:
  "\<not> accepted float l \<Longrightarrow> last_seen (clean_line float st l) = last_seen st"
  by (auto dest!: not_accepted_cases
      simp: clean_line_blank clean_line_malformed clean_line_header clean_line_price_fails)

lemma duplicate_keys_not_accepted:
  "\<not> accepted float l \<Longrightarrow> duplicate_keys (clean_line float st l) = duplicate_keys st"
  by (auto dest!: not_accepted_cases
      simp: clean_line_blank clean_line_malformed clean_line_header clean_line_price_fails)

lemma last_seen_step:
  "map_of (last_seen (clean_line float st l)) k =
     (if accepted float l \<and> row_key l = k then float (price_field l)
      else map_of (last_seen st) k)"
proof (cases "accepted float l")
  case True
  then obtain p where p: "float (price_field l) = Some p"
    using accepted_price by blast
  show ?thesis
    by (simp add: clean_line_accepted [OF True p] p update_conv True)
next
  case False
  then show ?thesis by (simp add: last_seen_not_accepted)
qed

lemma last_seen_read_lines:
  "map_of (last_seen (read_lines float ls)) k = last_accepted float ls k"
proof (induction ls rule: rev_induct)
  case Nil
  then show ?case by (simp add: read_lines_def clean_init_def last_accepted_def)
next
  case (snoc l ls)
  then show ?case
    by (simp add: read_lines_snoc last_seen_step last_accepted_def)
qed

lemma distinct_last_seen_step:
  "distinct (map fst (last_seen st)) \<Longrightarrow> distinct (map fst (last_seen (clean_line float st l)))"
proof (cases "accepted float l")
  case True
  assume d: "distinct (map fst (last_seen st))"
  from True obtain p where p: "float (price_field l) = Some p"
    using accepted_price by blast
  show ?thesis
    by (simp add: clean_line_accepted [OF True p] distinct_update [OF d])
next
  case False
  assume "distinct (map fst (last_seen st))"
  with False show ?thesis by (simp add: last_seen_not_accepted)
qed

lemma distinct_last_seen: "distinct (map fst (last_seen (read_lines float ls)))"
  by (induction ls rule: rev_induct)
     (simp_all add: read_lines_snoc distinct_last_seen_step, simp add: read_lines_def clean_init_def)

lemma last_accepted_not_le0:
  "last_accepted float ls k = Some p \<Longrightarrow> \<not> fle p (Fin 0)"
proof -
  assume a: "last_accepted float ls k = Some p"
  then obtain l rest where
    r: "rev (filter (\<lambda>l. accepted float l \<and> row_key l = k) ls) = l # rest"
    and p: "float (price_field l) = Some p"
    by (auto simp: last_accepted_def split: list.splits)
  from r have "l \<in> set (filter (\<lambda>l. accepted float l \<and> row_key l = k) ls)"
    by (metis list.set_intros(1) set_rev)
  then have "accepted float l" by simp
  with p show ?thesis by (auto dest: accepted_price)
qed

lemma table_of_keys:
  "map (\<lambda>r. (fst r, fst (snd r))) (table_of ls) = sort (map fst ls)"
  by (simp add: table_of_def comp_def)

lemma table_of_row:
  "distinct (map fst ls) \<Longrightarrow> (d, t, p) \<in> set (table_of ls) \<longleftrightarrow> map_of ls (d, t) = Some p"
  by (auto simp: table_of_def image_iff map_of_eq_Some_iff intro: rev_bexI)

text \<open>
  The clean file holds one record for each key that has an accepted row, with the price
  of the last accepted row; the keys are distinct and ascending; no price is
  \<^verbatim>\<open><= 0\<close>. A price that is a number is therefore positive; the guard does not
  exclude NaN.
\<close>

lemma clean_table_canonical:
  assumes raw: "raw_file fs = Some lines"
  shows "\<exists>rows. clean_file (snd (clean_and_save_prices float PRICES_RAW fs)) = Some (clean_header, rows)
     \<and> distinct (map (\<lambda>r. (fst r, fst (snd r))) rows)
     \<and> sorted (map (\<lambda>r. (fst r, fst (snd r))) rows)
     \<and> (\<forall>d t p. (d, t, p) \<in> set rows \<longleftrightarrow> last_accepted float lines (d, t) = Some p)
     \<and> (\<forall>d t p. (d, t, p) \<in> set rows \<longrightarrow> \<not> fle p (Fin 0))"
proof -
  let ?ls = "last_seen (read_lines float lines)"
  have c: "clean_file (snd (clean_and_save_prices float PRICES_RAW fs)) = Some (clean_header, table_of ?ls)"
    by (simp add: clean_result [OF raw])
  have d: "distinct (map (\<lambda>r. (fst r, fst (snd r))) (table_of ?ls))"
    by (simp add: table_of_keys distinct_last_seen)
  have s: "sorted (map (\<lambda>r. (fst r, fst (snd r))) (table_of ?ls))"
    by (simp add: table_of_keys)
  have m: "\<forall>d t p. (d, t, p) \<in> set (table_of ?ls) \<longleftrightarrow> last_accepted float lines (d, t) = Some p"
    by (simp add: table_of_row [OF distinct_last_seen] last_seen_read_lines)
  from m have n: "\<forall>d t p. (d, t, p) \<in> set (table_of ?ls) \<longrightarrow> \<not> fle p (Fin 0)"
    by (blast dest: last_accepted_not_le0)
  from c d s m n show ?thesis by blast
qed

text \<open>
  The dictionary \<^verbatim>\<open>duplicate_keys\<close> holds the keys with two accepted rows or more,
  each with the number of its accepted rows. The \<^verbatim>\<open>Resolved\<close> entry of the log carries
  the number of these keys and the sum of their numbers of rows minus the number of
  keys; it is present when the two differ.
\<close>

lemma unseen_iff_no_occurrence:
  "map_of (last_seen (read_lines float ls)) k = None \<longleftrightarrow> occurrences float ls k = 0"
proof (cases "filter (\<lambda>l. accepted float l \<and> row_key l = k) ls = []")
  case True
  then show ?thesis
    by (simp add: last_seen_read_lines last_accepted_def occurrences_def)
next
  case False
  then obtain l rest where
    r: "rev (filter (\<lambda>l. accepted float l \<and> row_key l = k) ls) = l # rest"
    by (cases "rev (filter (\<lambda>l. accepted float l \<and> row_key l = k) ls)") auto
  then have "l \<in> set (filter (\<lambda>l. accepted float l \<and> row_key l = k) ls)"
    by (metis list.set_intros(1) set_rev)
  then have "accepted float l" by simp
  then obtain p where "float (price_field l) = Some p"
    using accepted_price by blast
  with r False show ?thesis
    by (simp add: last_seen_read_lines last_accepted_def occurrences_def)
qed

lemma duplicate_keys_step:
  "map_of (duplicate_keys (clean_line float st l)) k =
     (if accepted float l \<and> row_key l = k
      then (if map_of (last_seen st) k = None then map_of (duplicate_keys st) k
            else Some ((case map_of (duplicate_keys st) k of None \<Rightarrow> 1 | Some c \<Rightarrow> c) + 1))
      else map_of (duplicate_keys st) k)"
proof (cases "accepted float l")
  case True
  then obtain p where p: "float (price_field l) = Some p"
    using accepted_price by blast
  show ?thesis
  proof (cases "map_of (last_seen st) (row_key l) = None")
    case n: True
    then show ?thesis
      by (auto simp: clean_line_accepted [OF True p] True)
  next
    case s: False
    then show ?thesis
      by (auto simp: clean_line_accepted [OF True p] update_conv True)
  qed
next
  case False
  then show ?thesis by (simp add: duplicate_keys_not_accepted)
qed

lemma occurrences_snoc:
  "occurrences float (ls @ [l]) k =
     occurrences float ls k + (if accepted float l \<and> row_key l = k then 1 else 0)"
  by (simp add: occurrences_def)

lemma duplicate_keys_read_lines:
  "map_of (duplicate_keys (read_lines float ls)) k =
     (if 2 \<le> occurrences float ls k then Some (occurrences float ls k) else None)"
proof (induction ls rule: rev_induct)
  case Nil
  then show ?case by (simp add: read_lines_def clean_init_def occurrences_def)
next
  case (snoc l ls)
  show ?case
  proof (cases "accepted float l \<and> row_key l = k")
    case True
    show ?thesis
    proof (cases "occurrences float ls k = 0")
      case unseen: True
      with True snoc show ?thesis
        by (simp add: read_lines_snoc duplicate_keys_step unseen_iff_no_occurrence
            occurrences_snoc)
    next
      case seen: False
      show ?thesis
      proof (cases "2 \<le> occurrences float ls k")
        case True2: True
        with True seen snoc show ?thesis
          by (simp add: read_lines_snoc duplicate_keys_step unseen_iff_no_occurrence
              occurrences_snoc)
      next
        case one: False
        with seen have "occurrences float ls k = 1" by simp
        with True seen snoc show ?thesis
          by (simp add: read_lines_snoc duplicate_keys_step unseen_iff_no_occurrence
              occurrences_snoc)
      qed
    qed
  next
    case False
    with snoc show ?thesis
      by (auto simp: read_lines_snoc duplicate_keys_step occurrences_snoc)
  qed
qed

lemma distinct_duplicate_keys: "distinct (map fst (duplicate_keys (read_lines float ls)))"
proof (induction ls rule: rev_induct)
  case Nil
  then show ?case by (simp add: read_lines_def clean_init_def)
next
  case (snoc l ls)
  show ?case
  proof (cases "accepted float l")
    case True
    then obtain p where p: "float (price_field l) = Some p"
      using accepted_price by blast
    from snoc show ?thesis
      by (simp add: read_lines_snoc clean_line_accepted [OF True p] distinct_update)
  next
    case False
    with snoc show ?thesis
      by (simp add: read_lines_snoc duplicate_keys_not_accepted)
  qed
qed

lemma sum_list_snd_alist:
  "distinct (map fst al) \<Longrightarrow>
   sum_list (map snd al) = (\<Sum>k \<in> fst ` set al. the (map_of al k))"
proof (induction al)
  case Nil
  then show ?case by simp
next
  case (Cons a al)
  from Cons.prems have n: "fst a \<notin> fst ` set al" and d: "distinct (map fst al)"
    by auto
  have "(\<Sum>k \<in> fst ` set al. the (map_of (a # al) k)) = (\<Sum>k \<in> fst ` set al. the (map_of al k))"
    using n by (intro sum.cong) (force simp: image_iff)+
  with Cons.IH [OF d] n show ?case by simp
qed

lemma duplicated_keys_set:
  "fst ` set (duplicate_keys (read_lines float ls)) = {k. 2 \<le> occurrences float ls k}"
proof -
  have "fst ` set (duplicate_keys (read_lines float ls))
          = dom (map_of (duplicate_keys (read_lines float ls)))"
    by (simp add: dom_map_of_conv_image_fst)
  also have "\<dots> = {k. 2 \<le> occurrences float ls k}"
    by (auto simp: dom_def duplicate_keys_read_lines)
  finally show ?thesis .
qed

lemma num_duplicate_pairs:
  "length (duplicate_keys (read_lines float ls)) = card {k. 2 \<le> occurrences float ls k}"
proof -
  have "length (duplicate_keys (read_lines float ls))
          = card (set (map fst (duplicate_keys (read_lines float ls))))"
    using distinct_card [OF distinct_duplicate_keys [of float ls]] by simp
  then show ?thesis by (simp add: duplicated_keys_set)
qed

lemma total_duplicate_occurrences:
  "sum_list (map snd (duplicate_keys (read_lines float ls)))
     = (\<Sum>k \<in> {k. 2 \<le> occurrences float ls k}. occurrences float ls k)"
proof -
  have "sum_list (map snd (duplicate_keys (read_lines float ls)))
          = (\<Sum>k \<in> {k. 2 \<le> occurrences float ls k}.
               the (map_of (duplicate_keys (read_lines float ls)) k))"
    by (simp add: sum_list_snd_alist [OF distinct_duplicate_keys] duplicated_keys_set)
  also have "\<dots> = (\<Sum>k \<in> {k. 2 \<le> occurrences float ls k}. occurrences float ls k)"
    by (intro sum.cong) (simp_all add: duplicate_keys_read_lines)
  finally show ?thesis .
qed

lemma Resolved_in_audit_log:
  "Resolved n d \<in> set (audit_log st) \<longleftrightarrow>
     (Resolved n d \<in> set (log st) \<or>
      (n = length (duplicate_keys st)
       \<and> d = int (sum_list (map snd (duplicate_keys st))) - int (length (duplicate_keys st))
       \<and> sum_list (map snd (duplicate_keys st)) \<noteq> length (duplicate_keys st)))"
  by (simp add: audit_log_def)

lemma Resolved_not_in_log: "Resolved n d \<notin> set (log (read_lines float lines))"
  by (auto simp: log_read_lines)

lemma duplicates_reported:
  assumes raw: "raw_file fs = Some lines"
  shows "\<exists>n lg. fst (clean_and_save_prices float PRICES_RAW fs) = Inr (n, lg) \<and>
     (\<forall>pairs dropped. Resolved pairs dropped \<in> set lg \<longleftrightarrow>
        pairs = card {k. 2 \<le> occurrences float lines k}
        \<and> dropped = int (\<Sum>k \<in> {k. 2 \<le> occurrences float lines k}. occurrences float lines k)
                     - int (card {k. 2 \<le> occurrences float lines k})
        \<and> (\<Sum>k \<in> {k. 2 \<le> occurrences float lines k}. occurrences float lines k)
             \<noteq> card {k. 2 \<le> occurrences float lines k})"
proof -
  let ?st = "read_lines float lines"
  have res: "fst (clean_and_save_prices float PRICES_RAW fs) = Inr (length (last_seen ?st), audit_log ?st)"
    by (simp add: clean_result [OF raw])
  have "\<forall>pairs dropped. Resolved pairs dropped \<in> set (audit_log ?st) \<longleftrightarrow>
        pairs = card {k. 2 \<le> occurrences float lines k}
        \<and> dropped = int (\<Sum>k \<in> {k. 2 \<le> occurrences float lines k}. occurrences float lines k)
                     - int (card {k. 2 \<le> occurrences float lines k})
        \<and> (\<Sum>k \<in> {k. 2 \<le> occurrences float lines k}. occurrences float lines k)
             \<noteq> card {k. 2 \<le> occurrences float lines k}"
    by (simp add: Resolved_in_audit_log Resolved_not_in_log num_duplicate_pairs
        total_duplicate_occurrences)
  with res show ?thesis by blast
qed

subsection \<open>What the ranking guarantees on every table\<close>

lemma fdiv_defined: "\<not> fle q (Fin 0) \<Longrightarrow> \<exists>x. fdiv p q = Inr x"
  by (cases q; cases p) auto

lemma momentum_loop_candidates:
  "momentum_loop tg rf by_ticker acc = Inr (acc @ List.map_filter (candidate tg rf) by_ticker)"
proof (induction by_ticker arbitrary: acc)
  case Nil
  then show ?case by (simp add: List.map_filter_simps)
next
  case (Cons item rest)
  obtain ticker day_prices where item: "item = (ticker, day_prices)" by (cases item)
  show ?case
  proof (cases "map_of day_prices tg")
    case None
    then show ?thesis
      by (simp add: item candidate_def Cons.IH List.map_filter_simps)
  next
    case p: (Some p)
    show ?thesis
    proof (cases "map_of day_prices rf")
      case None
      with p show ?thesis
        by (simp add: item candidate_def Cons.IH List.map_filter_simps)
    next
      case q: (Some q)
      show ?thesis
      proof (cases "fle q (Fin 0)")
        case True
        with p q show ?thesis
          by (simp add: item candidate_def Cons.IH List.map_filter_simps)
      next
        case False
        then obtain x where "fdiv p q = Inr x"
          using fdiv_defined by blast
        with False p q show ?thesis
          by (simp add: item candidate_def Cons.IH List.map_filter_simps)
      qed
    qed
  qed
qed

lemma group_row_lookup:
  "day_price (group_row by_ticker (d, t, p)) t' d' =
     (if t' = t \<and> d' = d then Some p else day_price by_ticker t' d')"
  by (auto simp: day_price_def group_row_def update_conv Let_def split: option.splits)

lemma group_by_ticker_snoc:
  "group_by_ticker (rows @ [r]) = group_row (group_by_ticker rows) r"
  by (simp add: group_by_ticker_def)

lemma price_on_snoc:
  "price_on (rows @ [(d, t, p)]) t' d' =
     (if t' = t \<and> d' = d then Some p else price_on rows t' d')"
  by (auto simp: price_on_def)

lemma group_by_ticker_price:
  "day_price (group_by_ticker rows) t d = price_on rows t d"
proof (induction rows rule: rev_induct)
  case Nil
  then show ?case by (simp add: group_by_ticker_def day_price_def price_on_def)
next
  case (snoc r rows)
  obtain d' t' p' where r: "r = (d', t', p')" by (cases r)
  from snoc show ?case
    by (simp add: r group_by_ticker_snoc group_row_lookup price_on_snoc)
qed

lemma distinct_group_by_ticker: "distinct (map fst (group_by_ticker rows))"
proof (induction rows rule: rev_induct)
  case Nil
  then show ?case by (simp add: group_by_ticker_def)
next
  case (snoc r rows)
  obtain d t p where r: "r = (d, t, p)" by (cases r)
  from snoc show ?case
    by (simp add: r group_by_ticker_snoc group_row_def Let_def distinct_update)
qed

lemma candidate_ticker: "candidate tg rf item = Some c \<Longrightarrow> fst c = fst item"
  by (auto simp: candidate_def split: option.splits if_splits sum.splits)

lemma candidate_iff:
  "candidate tg rf (t, dp) = Some (t', m) \<longleftrightarrow>
     t' = t \<and> (\<exists>p q x. map_of dp tg = Some p \<and> map_of dp rf = Some q \<and> \<not> fle q (Fin 0)
                  \<and> fdiv p q = Inr x \<and> m = fsub x (Fin 1))"
  by (auto simp: candidate_def split: option.splits if_splits sum.splits)

lemma set_map_filter: "set (List.map_filter f xs) = {y. \<exists>x \<in> set xs. f x = Some y}"
  by (induction xs) (auto simp: List.map_filter_simps split: option.splits)

lemma distinct_candidates:
  "distinct (map fst by_ticker) \<Longrightarrow>
   distinct (map fst (List.map_filter (candidate tg rf) by_ticker))"
proof (induction by_ticker)
  case Nil
  then show ?case by (simp add: List.map_filter_simps)
next
  case (Cons item rest)
  show ?case
  proof (cases "candidate tg rf item")
    case None
    with Cons show ?thesis by (simp add: List.map_filter_simps)
  next
    case (Some c)
    have "fst c \<notin> fst ` set (List.map_filter (candidate tg rf) rest)"
    proof
      assume "fst c \<in> fst ` set (List.map_filter (candidate tg rf) rest)"
      then obtain c' item' where "item' \<in> set rest" "candidate tg rf item' = Some c'"
        "fst c' = fst c"
        by (auto simp: set_map_filter)
      with Some have "fst item' = fst item"
        by (metis candidate_ticker)
      moreover from \<open>item' \<in> set rest\<close> have "fst item' \<in> fst ` set rest"
        by (rule imageI)
      moreover from Cons.prems have "fst item \<notin> fst ` set rest"
        by simp
      ultimately show False by simp
    qed
    with Some Cons show ?thesis by (simp add: List.map_filter_simps)
  qed
qed

lemma candidates_of_table:
  "(t, m) \<in> set (List.map_filter (candidate tg rf) (group_by_ticker rows)) \<longleftrightarrow>
     (\<exists>p q x. price_on rows t tg = Some p \<and> price_on rows t rf = Some q
        \<and> \<not> fle q (Fin 0) \<and> fdiv p q = Inr x \<and> m = fsub x (Fin 1))"
  (is "?L \<longleftrightarrow> ?R")
proof
  assume ?L
  then obtain item where i: "item \<in> set (group_by_ticker rows)"
    and c: "candidate tg rf item = Some (t, m)"
    by (auto simp: set_map_filter)
  obtain t' dp where item: "item = (t', dp)" by (cases item)
  from c item have t: "t' = t" by (simp add: candidate_iff)
  from i item t have mo: "map_of (group_by_ticker rows) t = Some dp"
    using distinct_group_by_ticker [of rows] by simp
  then have "map_of dp tg = price_on rows t tg" "map_of dp rf = price_on rows t rf"
    using group_by_ticker_price [of rows t] by (simp_all add: day_price_def)
  with c item t show ?R by (simp add: candidate_iff)
next
  assume ?R
  then obtain p q x where p: "price_on rows t tg = Some p" and q: "price_on rows t rf = Some q"
    and ok: "\<not> fle q (Fin 0)" "fdiv p q = Inr x" "m = fsub x (Fin 1)"
    by blast
  from p obtain dp where mo: "map_of (group_by_ticker rows) t = Some dp"
    using group_by_ticker_price [of rows t tg]
    by (cases "map_of (group_by_ticker rows) t") (simp_all add: day_price_def)
  then have "map_of dp tg = Some p" "map_of dp rf = Some q"
    using group_by_ticker_price [of rows t] p q by (simp_all add: day_price_def)
  with ok have "candidate tg rf (t, dp) = Some (t, m)"
    by (simp add: candidate_iff)
  moreover from mo have "(t, dp) \<in> set (group_by_ticker rows)"
    by (rule map_of_SomeD)
  ultimately show ?L by (auto simp: set_map_filter)
qed

lemma set_sort_insert: "set (sort_insert x ys) = insert x (set ys)"
  by (induction ys) auto

lemma length_sort_insert: "length (sort_insert x ys) = Suc (length ys)"
  by (induction ys) auto

lemma set_sort_fold:
  "set (foldl (\<lambda>acc x. sort_insert x acc) acc xs) = set acc \<union> set xs"
  by (induction xs arbitrary: acc) (auto simp: set_sort_insert)

lemma length_sort_fold:
  "length (foldl (\<lambda>acc x. sort_insert x acc) acc xs) = length acc + length xs"
  by (induction xs arbitrary: acc) (auto simp: length_sort_insert)

lemma set_py_sort: "set (py_sort xs) = set xs"
  by (simp add: py_sort_def set_sort_fold)

lemma length_py_sort: "length (py_sort xs) = length xs"
  by (simp add: py_sort_def length_sort_fold)

text \<open>
  On a known date with enough history the function returns the first five entries of
  the sorted candidates. The tickers of the candidates are distinct. A ticker is a
  candidate exactly when it has a price on the target date and a price on the reference
  date that is not \<^verbatim>\<open><= 0\<close>, and its momentum is the quotient of the two minus one.
  A reference price that is a number is then positive; the guard does not exclude NaN.
\<close>

lemma ranking_candidates:
  assumes "date_to_index tg = Some idx" and "\<not> idx < window"
    and "py_index dates (idx - window) = Inr rf"
  shows "\<exists>ms. compute_top5_momentum_for_date rows tg dates date_to_index window
              = Inr (Some (take 5 (py_sort ms)))
     \<and> distinct (map fst ms)
     \<and> (\<forall>t m. (t, m) \<in> set ms \<longleftrightarrow>
           (\<exists>p q x. price_on rows t tg = Some p \<and> price_on rows t rf = Some q
              \<and> \<not> fle q (Fin 0) \<and> fdiv p q = Inr x \<and> m = fsub x (Fin 1)))
     \<and> set (take 5 (py_sort ms)) \<subseteq> set ms
     \<and> length (take 5 (py_sort ms)) = min 5 (length ms)"
proof -
  let ?ms = "List.map_filter (candidate tg rf) (group_by_ticker rows)"
  have r: "compute_top5_momentum_for_date rows tg dates date_to_index window
             = Inr (Some (take 5 (py_sort ?ms)))"
    using assms by (simp add: compute_top5_momentum_for_date_def momentum_loop_candidates)
  have d: "distinct (map fst ?ms)"
    by (rule distinct_candidates [OF distinct_group_by_ticker])
  have s: "set (take 5 (py_sort ?ms)) \<subseteq> set ?ms"
    using set_take_subset [of 5 "py_sort ?ms"] by (simp add: set_py_sort)
  have l: "length (take 5 (py_sort ?ms)) = min 5 (length ?ms)"
    by (simp add: length_py_sort min.commute)
  from r d s l candidates_of_table [of _ _ tg rf rows] show ?thesis
    by blast
qed

text \<open>
  With the calendar of the table and a window that is not negative, the look-up of the
  reference date succeeds: it is the date \<open>window\<close> positions before the target date.
\<close>

lemma reference_date_defined:
  assumes "distinct dates" and "build_date_to_index dates tg = Some idx"
    and "0 \<le> window" and "\<not> idx < window"
  shows "py_index dates (idx - window) = Inr (dates ! nat (idx - window))
     \<and> nat idx < length dates \<and> dates ! nat idx = tg"
proof -
  from assms(2) have "tg \<in> dom (build_date_to_index dates)" by blast
  then have "tg \<in> set dates"
    by (simp add: build_date_to_index_def index_fold_dom)
  then obtain i where i: "i < length dates" "dates ! i = tg"
    by (auto simp: in_set_conv_nth)
  with index_fold_nth [OF assms(1) i(1), of Map.empty 0] assms(2)
  have "idx = int i"
    by (simp add: build_date_to_index_def)
  with i assms(3,4) show ?thesis
    by (auto simp: py_index_def Let_def)
qed

end
